theory Spec2Isabelle
  imports Main
begin

section \<open>Strings\<close>

text \<open>
  A Python \<open>str\<close> is a sequence of code points. The model covers the code points below
  256 (Latin-1), one \<open>char\<close> each: \<open>of_char c\<close> is the code point of \<open>c\<close>.
  Paths follow \<open>posixpath\<close>: the separator is \<open>/\<close>.
\<close>

definition isdecimal :: "char \<Rightarrow> bool" where
  \<comment> \<open>the class \<open>\d\<close> of \<open>re\<close> on a \<open>str\<close> pattern (category Nd): below 256 only 0 to 9\<close>
  "isdecimal c = (48 \<le> (of_char c :: nat) \<and> (of_char c :: nat) \<le> 57)"

definition isdigit_char :: "char \<Rightarrow> bool" where
  \<comment> \<open>\<open>str.isdigit\<close> on one character (Numeric_Type Digit or Decimal): below 256 these
      are 0 to 9 and the superscripts U+00B2, U+00B3, U+00B9\<close>
  "isdigit_char c = (isdecimal c \<or> (of_char c :: nat) \<in> {178, 179, 185})"

definition isdigit :: "string \<Rightarrow> bool" where
  "isdigit s = (s \<noteq> [] \<and> list_all isdigit_char s)"

definition lower_char :: "char \<Rightarrow> char" where
  \<comment> \<open>\<open>str.lower\<close> on one character: A to Z, and U+00C0 to U+00DE except U+00D7\<close>
  "lower_char c =
     (let n = (of_char c :: nat) in
      if (65 \<le> n \<and> n \<le> 90) \<or> (192 \<le> n \<and> n \<le> 222 \<and> n \<noteq> 215)
      then char_of (n + 32) else c)"

definition lower :: "string \<Rightarrow> string" where
  "lower s = map lower_char s"

fun rfind_from :: "char \<Rightarrow> string \<Rightarrow> int \<Rightarrow> int \<Rightarrow> int" where
  "rfind_from c [] i best = best"
| "rfind_from c (x # xs) i best = rfind_from c xs (i + 1) (if x = c then i else best)"

definition rfind :: "char \<Rightarrow> string \<Rightarrow> int" where
  \<comment> \<open>\<open>str.rfind\<close> of one character: the highest index holding it, or -1\<close>
  "rfind c s = rfind_from c s 0 (- 1)"

definition splitext :: "string \<Rightarrow> string \<times> string" where
  \<comment> \<open>\<open>posixpath.splitext\<close>: the extension starts at the last dot of the last component,
      unless only dots precede it there\<close>
  "splitext p =
     (let sepIndex = rfind (CHR ''/'') p;
          dotIndex = rfind (CHR ''.'') p
      in if dotIndex > sepIndex \<and>
            list_ex (\<lambda>c. c \<noteq> CHR ''.'')
              (take (nat dotIndex - nat (sepIndex + 1)) (drop (nat (sepIndex + 1)) p))
         then (take (nat dotIndex) p, drop (nat dotIndex) p)
         else (p, []))"

section \<open>The file system\<close>

datatype kind = Regular | Directory | Special

record stat =
  st_kind :: kind
  st_size :: nat
  st_text :: string

type_synonym fs = "string \<Rightarrow> stat option"

definition exists_path :: "fs \<Rightarrow> string \<Rightarrow> bool" where
  "exists_path f p = (f p \<noteq> None)"

definition isfile :: "fs \<Rightarrow> string \<Rightarrow> bool" where
  \<comment> \<open>\<open>os.path.isfile\<close>: False, never an exception, where nothing is there\<close>
  "isfile f p = (case f p of None \<Rightarrow> False | Some s \<Rightarrow> st_kind s = Regular)"

section \<open>Video Classifier\<close>

definition SUPPORTED_EXTENSIONS :: "string set" where
  "SUPPORTED_EXTENSIONS =
     {''.mp4'', ''.mov'', ''.mkv'', ''.avi'', ''.webm'', ''.m4v'', ''.ts'', ''.mts'',
      ''.m2ts'', ''.3gp''}"

definition is_video_file :: "fs \<Rightarrow> string \<Rightarrow> bool" where
  "is_video_file f path =
     (if \<not> isfile f path then False
      else lower (snd (splitext path)) \<in> SUPPORTED_EXTENSIONS)"

section \<open>Natural Order Comparator\<close>

datatype exn =
  ValueError | TypeError | FileExistsError | PermissionError | FileNotFoundError
  | IsADirectoryError | OtherError string

datatype key_elem = KInt int | KStr string

function re_split :: "string \<Rightarrow> string list" where
  \<comment> \<open>\<open>re.split(r"(\d+)", s)\<close>: text, digits, text, ..., text; the texts may be empty\<close>
  "re_split s =
     (let pre = takeWhile (\<lambda>c. \<not> isdecimal c) s;
          rest = dropWhile (\<lambda>c. \<not> isdecimal c) s
      in case rest of
           [] \<Rightarrow> [pre]
         | d # ds \<Rightarrow> pre # (d # takeWhile isdecimal ds) # re_split (dropWhile isdecimal ds))"
  by pat_completeness auto
termination
proof (relation "measure length")
  show "wf (measure length)" by simp
next
  fix s :: string and pre rest d ds
  assume "rest = dropWhile (\<lambda>c. \<not> isdecimal c) s" and "rest = d # ds"
  then have "length (d # ds) \<le> length s"
    using length_dropWhile_le [of "\<lambda>c. \<not> isdecimal c" s] by simp
  moreover have "length (dropWhile isdecimal ds) \<le> length ds"
    by (rule length_dropWhile_le)
  ultimately show "(dropWhile isdecimal ds, s) \<in> measure length" by simp
qed

declare re_split.simps [simp del]

definition decimal_value :: "string \<Rightarrow> int" where
  "decimal_value t = foldl (\<lambda>a c. 10 * a + (int (of_char c) - 48)) 0 t"

definition py_int :: "string \<Rightarrow> exn + int" where
  \<comment> \<open>\<open>int(text)\<close> on a text of digits: only decimal digits are a literal\<close>
  "py_int t = (if t \<noteq> [] \<and> list_all isdecimal t then Inr (decimal_value t) else Inl ValueError)"

definition key_of_piece :: "string \<Rightarrow> exn + key_elem" where
  "key_of_piece t =
     (if isdigit t then (case py_int t of Inl e \<Rightarrow> Inl e | Inr n \<Rightarrow> Inr (KInt n))
      else Inr (KStr (lower t)))"

fun sequence :: "(exn + 'a) list \<Rightarrow> exn + 'a list" where
  "sequence [] = Inr []"
| "sequence (Inl e # rs) = Inl e"
| "sequence (Inr x # rs) = (case sequence rs of Inl e \<Rightarrow> Inl e | Inr xs \<Rightarrow> Inr (x # xs))"

definition natural_sort_key :: "string \<Rightarrow> exn + key_elem list" where
  "natural_sort_key s = sequence (map key_of_piece (re_split s))"

fun str_lt :: "string \<Rightarrow> string \<Rightarrow> bool" where
  \<comment> \<open>\<open><\<close> on \<open>str\<close>: lexicographic on code points\<close>
  "str_lt [] [] = False"
| "str_lt [] (y # ys) = True"
| "str_lt (x # xs) [] = False"
| "str_lt (x # xs) (y # ys) =
     (if x = y then str_lt xs ys else (of_char x :: nat) < of_char y)"

fun elem_lt :: "key_elem \<Rightarrow> key_elem \<Rightarrow> exn + bool" where
  "elem_lt (KInt a) (KInt b) = Inr (a < b)"
| "elem_lt (KStr a) (KStr b) = Inr (str_lt a b)"
| "elem_lt (KInt a) (KStr b) = Inl TypeError"
| "elem_lt (KStr a) (KInt b) = Inl TypeError"

fun key_lt :: "key_elem list \<Rightarrow> key_elem list \<Rightarrow> exn + bool" where
  \<comment> \<open>\<open><\<close> on lists: \<open><\<close> at the first index where the elements differ, else the lengths\<close>
  "key_lt [] [] = Inr False"
| "key_lt [] (y # ys) = Inr True"
| "key_lt (x # xs) [] = Inr False"
| "key_lt (x # xs) (y # ys) = (if x = y then key_lt xs ys else elem_lt x y)"

fun insert_by_key :: "key_elem list \<times> 'a \<Rightarrow> (key_elem list \<times> 'a) list
    \<Rightarrow> exn + (key_elem list \<times> 'a) list" where
  "insert_by_key x [] = Inr [x]"
| "insert_by_key x (y # ys) =
     (case key_lt (fst y) (fst x) of
        Inl e \<Rightarrow> Inl e
      | Inr True \<Rightarrow> (case insert_by_key x ys of Inl e \<Rightarrow> Inl e | Inr r \<Rightarrow> Inr (y # r))
      | Inr False \<Rightarrow> Inr (x # y # ys))"

fun sort_pairs :: "(key_elem list \<times> 'a) list \<Rightarrow> exn + (key_elem list \<times> 'a) list" where
  "sort_pairs [] = Inr []"
| "sort_pairs (x # xs) =
     (case sort_pairs xs of Inl e \<Rightarrow> Inl e | Inr r \<Rightarrow> insert_by_key x r)"

definition sort_natural :: "string list \<Rightarrow> exn + string list" where
  \<comment> \<open>\<open>list.sort(key=natural_sort_key)\<close>: every key is computed first; the sort is stable
      and compares keys with \<open><\<close> only\<close>
  "sort_natural xs =
     (case sequence (map natural_sort_key xs) of
        Inl e \<Rightarrow> Inl e
      | Inr ks \<Rightarrow> (case sort_pairs (zip ks xs) of Inl e \<Rightarrow> Inl e | Inr r \<Rightarrow> Inr (map snd r)))"

definition natural_lt :: "string \<Rightarrow> string \<Rightarrow> exn + bool" where
  \<comment> \<open>what the sort does with two names: both keys, then \<open><\<close> on the keys\<close>
  "natural_lt a b =
     (case natural_sort_key a of
        Inl e \<Rightarrow> Inl e
      | Inr ka \<Rightarrow> (case natural_sort_key b of Inl e \<Rightarrow> Inl e | Inr kb \<Rightarrow> key_lt ka kb))"

section \<open>Paths\<close>

definition startswith :: "string \<Rightarrow> string \<Rightarrow> bool" where
  "startswith s pre = (take (length pre) s = pre)"

definition endswith :: "string \<Rightarrow> string \<Rightarrow> bool" where
  "endswith s suf = (drop (length s - length suf) s = suf \<and> length suf \<le> length s)"

definition isabs :: "string \<Rightarrow> bool" where
  "isabs p = startswith p ''/''"

definition join :: "string \<Rightarrow> string \<Rightarrow> string" where
  \<comment> \<open>\<open>posixpath.join(a, b)\<close>\<close>
  "join a b =
     (if startswith b ''/'' then b
      else if a = [] \<or> endswith a ''/'' then a @ b
      else a @ ''/'' @ b)"

fun split_on :: "char \<Rightarrow> string \<Rightarrow> string list" where
  \<comment> \<open>\<open>str.split(sep)\<close> with a separator of one character\<close>
  "split_on c [] = [[]]"
| "split_on c (x # xs) =
     (if x = c then [] # split_on c xs
      else (case split_on c xs of [] \<Rightarrow> [[x]] | w # ws \<Rightarrow> (x # w) # ws))"

fun sep_join :: "string list \<Rightarrow> string" where
  \<comment> \<open>\<open>'/'.join(comps)\<close>\<close>
  "sep_join [] = []"
| "sep_join [c] = c"
| "sep_join (c # d # cs) = c @ ''/'' @ sep_join (d # cs)"

definition norm_step :: "bool \<Rightarrow> string list \<Rightarrow> string \<Rightarrow> string list" where
  \<comment> \<open>one round of the loop of \<open>posixpath.normpath\<close> over the components\<close>
  "norm_step initial new_comps cmp =
     (if cmp = [] \<or> cmp = ''.'' then new_comps
      else if cmp \<noteq> ''..'' \<or> (\<not> initial \<and> new_comps = [])
              \<or> (new_comps \<noteq> [] \<and> last new_comps = ''..'')
      then new_comps @ [cmp]
      else if new_comps \<noteq> [] then butlast new_comps
      else new_comps)"

definition normpath :: "string \<Rightarrow> string" where
  "normpath path =
     (if path = [] then ''.''
      else
        let initial_slashes =
              (if startswith path ''/''
               then (if startswith path ''//'' \<and> \<not> startswith path ''///'' then 2 else 1)
               else (0::nat));
            comps = foldl (norm_step (initial_slashes \<noteq> 0)) [] (split_on (CHR ''/'') path);
            p = sep_join comps;
            p' = (if initial_slashes \<noteq> 0 then replicate initial_slashes (CHR ''/'') @ p else p)
        in if p' = [] then ''.'' else p')"

definition abspath :: "string \<Rightarrow> string \<Rightarrow> string" where
  \<comment> \<open>\<open>os.path.abspath(path)\<close> in a process whose working directory is \<open>cwd\<close>\<close>
  "abspath cwd path = normpath (if \<not> isabs path then join cwd path else path)"

section \<open>The process and its environment\<close>

text \<open>
  A file is what \<open>stat\<close> says of it and, for a text file, its text (a field of the
  same record). What the program does not decide is a field of the environment: the working directory, where
  \<open>ffmpeg\<close> is, the directory listing, the clock, the random names \<open>tempfile\<close> draws,
  the directories that refuse a new file, the paths that refuse \<open>unlink\<close>, and what
  running \<open>ffmpeg\<close> on a command line does to the file system, exception included.
  The command line of the program itself comes parsed, as \<open>args\<close>. Writes to an open
  file are taken to succeed.
\<close>

record completed =
  returncode :: int
  stderr :: string

record args =
  output_name_arg :: "string option"
  include_hidden :: bool

record env =
  getcwd :: string
  which_ffmpeg :: "string option"
  listdir :: "exn + string list"
  now :: string
  random_names :: "string list"
  no_create :: "string set"
  no_unlink :: "string set"
  ffmpeg :: "string list \<Rightarrow> fs \<Rightarrow> (exn + completed) \<times> fs"

text \<open>
  The state of a run: the file system, what was printed, and two logs of calls, the
  command lines given to \<open>subprocess.run\<close> and the list files created with their
  inputs.
\<close>

record world =
  files :: fs
  spawned :: "string list list"
  built :: "(string \<times> string list) list"
  out :: "string list"
  err :: "string list"

definition getsize :: "fs \<Rightarrow> string \<Rightarrow> nat" where
  \<comment> \<open>\<open>os.path.getsize\<close>, called only on a path that exists\<close>
  "getsize f p = (case f p of None \<Rightarrow> 0 | Some s \<Rightarrow> st_size s)"

definition utf8_len :: "string \<Rightarrow> nat" where
  "utf8_len s = sum_list (map (\<lambda>c. if (of_char c :: nat) < 128 then 1 else 2) s)"

definition os_remove :: "env \<Rightarrow> string \<Rightarrow> world \<Rightarrow> (exn + unit) \<times> world" where
  "os_remove E p w =
     (case files w p of
        None \<Rightarrow> (Inl FileNotFoundError, w)
      | Some s \<Rightarrow>
          if st_kind s = Directory then (Inl IsADirectoryError, w)
          else if p \<in> no_unlink E then (Inl PermissionError, w)
          else (Inr (), w\<lparr>files := (files w)(p := None)\<rparr>))"

definition subprocess_run :: "env \<Rightarrow> string list \<Rightarrow> world \<Rightarrow> (exn + completed) \<times> world" where
  \<comment> \<open>\<open>subprocess.run(cmd, capture_output=True, text=True)\<close>\<close>
  "subprocess_run E cmd w =
     (case ffmpeg E cmd (files w) of
        (r, f') \<Rightarrow> (r, w\<lparr>files := f', spawned := spawned w @ [cmd]\<rparr>))"

section \<open>Manifest Builder\<close>

definition escape_quotes :: "string \<Rightarrow> string" where
  \<comment> \<open>\<open>abs_path.replace("'", "'\\''")\<close>\<close>
  "escape_quotes s =
     concat (map (\<lambda>c. if c = CHR 0x27 then [CHR 0x27, CHR 0x5C, CHR 0x27, CHR 0x27] else [c]) s)"

definition manifest_line :: "string \<Rightarrow> string \<Rightarrow> string" where
  \<comment> \<open>what one round of the loop writes, newline included\<close>
  "manifest_line cwd p =
     ''file '' @ [CHR 0x27] @ escape_quotes (abspath cwd p) @ [CHR 0x27] @ [CHR 0x0A]"

fun mkstemp_inner :: "fs \<Rightarrow> string \<Rightarrow> string list \<Rightarrow> exn + string" where
  \<comment> \<open>the loop of \<open>tempfile\<close> over random names: the first one not taken\<close>
  "mkstemp_inner f dir [] = Inl FileExistsError"
| "mkstemp_inner f dir (n # ns) =
     (let file = join dir (''tmp'' @ n @ ''_ffconcat.txt'')
      in if exists_path f file then mkstemp_inner f dir ns else Inr file)"

definition build_filelist_file :: "env \<Rightarrow> string list \<Rightarrow> string \<Rightarrow> world
    \<Rightarrow> (exn + string) \<times> world" where
  "build_filelist_file E file_paths directory w =
     (if directory \<in> no_create E then (Inl PermissionError, w)
      else case mkstemp_inner (files w) directory (random_names E) of
        Inl e \<Rightarrow> (Inl e, w)
      | Inr name \<Rightarrow>
          let text = concat (map (manifest_line (getcwd E)) file_paths)
          in (Inr name,
              w\<lparr>files := (files w)(name \<mapsto>
                         \<lparr>st_kind = Regular, st_size = utf8_len text, st_text = text\<rparr>),
                built := built w @ [(name, file_paths)]\<rparr>))"

section \<open>Merge Executor\<close>

definition cmd_copy :: "string \<Rightarrow> string \<Rightarrow> string list" where
  "cmd_copy list_file outp =
     [''ffmpeg'', ''-y'', ''-hide_banner'', ''-loglevel'', ''error'', ''-f'', ''concat'',
      ''-safe'', ''0'', ''-i'', list_file, ''-c'', ''copy'', outp]"

definition cmd_reencode :: "string \<Rightarrow> string \<Rightarrow> string list" where
  "cmd_reencode list_file outp =
     [''ffmpeg'', ''-y'', ''-hide_banner'', ''-loglevel'', ''error'', ''-f'', ''concat'',
      ''-safe'', ''0'', ''-i'', list_file, ''-c:v'', ''libx264'', ''-preset'', ''veryfast'',
      ''-crf'', ''20'', ''-c:a'', ''aac'', ''-b:a'', ''192k'', ''-movflags'', ''+faststart'',
      outp]"

definition run_ffmpeg_concat :: "env \<Rightarrow> string \<Rightarrow> string \<Rightarrow> world
    \<Rightarrow> (exn + bool \<times> string) \<times> world" where
  "run_ffmpeg_concat E list_file outp w =
     (case subprocess_run E (cmd_copy list_file outp) w of
        (Inl e, w1) \<Rightarrow> (Inl e, w1)
      | (Inr result, w1) \<Rightarrow>
          if returncode result = 0 \<and> exists_path (files w1) outp \<and> getsize (files w1) outp > 0
          then (Inr (True, ''Merged with stream copy.''), w1)
          else
            (case subprocess_run E (cmd_reencode list_file outp) w1 of
               (Inl e, w2) \<Rightarrow> (Inl e, w2)
             | (Inr result2, w2) \<Rightarrow>
                 if returncode result2 = 0 \<and> exists_path (files w2) outp
                    \<and> getsize (files w2) outp > 0
                 then (Inr (True, ''Merged with re-encode.''), w2)
                 else (Inr (False,
                         if stderr result \<noteq> [] then stderr result
                         else if stderr result2 \<noteq> [] then stderr result2
                         else ''Unknown error from ffmpeg''), w2)))"

section \<open>Orchestrator\<close>

definition print_out :: "string list \<Rightarrow> world \<Rightarrow> world" where
  "print_out ls w = w\<lparr>out := out w @ ls\<rparr>"

definition print_err :: "string list \<Rightarrow> world \<Rightarrow> world" where
  "print_err ls w = w\<lparr>err := err w @ ls\<rparr>"

definition cleanup :: "env \<Rightarrow> string \<Rightarrow> world \<Rightarrow> world" where
  \<comment> \<open>the \<open>finally\<close> block of \<open>main\<close>: remove the list file if it is there, and swallow
      whatever the removal raises\<close>
  "cleanup E list_file w =
     (if exists_path (files w) list_file
      then (case os_remove E list_file w of (Inl e, w') \<Rightarrow> w' | (Inr u, w') \<Rightarrow> w')
      else w)"

definition output_path_of :: "env \<Rightarrow> args \<Rightarrow> string" where
  \<comment> \<open>\<open>main\<close>, "Determine output file": an empty \<open>--output\<close> counts as none\<close>
  "output_path_of E a =
     (let output_name =
            (case output_name_arg a of
               Some s \<Rightarrow> if s \<noteq> [] then s else ''merged_'' @ now E @ ''.mp4''
             | None \<Rightarrow> ''merged_'' @ now E @ ''.mp4'')
      in abspath (getcwd E) (join (getcwd E) output_name))"

definition discovered :: "env \<Rightarrow> args \<Rightarrow> world \<Rightarrow> exn + string list" where
  \<comment> \<open>\<open>main\<close>, from \<open>os.listdir\<close> to the sort\<close>
  "discovered E a w =
     (case listdir E of
        Inl e \<Rightarrow> Inl e
      | Inr names \<Rightarrow>
          let candidates = filter (\<lambda>f. include_hidden a \<or> \<not> startswith f ''.'') names;
              video_files = filter (\<lambda>f. is_video_file (files w) (join (getcwd E) f)) candidates
          in sort_natural video_files)"

definition merge_inputs :: "env \<Rightarrow> string list \<Rightarrow> string \<Rightarrow> world \<Rightarrow> (exn + int) \<times> world" where
  \<comment> \<open>\<open>main\<close>, from "Merging the following files in order:" to the end\<close>
  "merge_inputs E video_files output_path w =
     (let w0 = print_out (''Merging the following files in order:''
                 # map (\<lambda>f. '' - '' @ f) video_files) w
      in case build_filelist_file E (map (join (getcwd E)) video_files) (getcwd E) w0 of
           (Inl e, w1) \<Rightarrow> (Inl e, w1)
         | (Inr list_file, w1) \<Rightarrow>
             (case run_ffmpeg_concat E list_file output_path w1 of
                (Inl e, w2) \<Rightarrow> (Inl e, cleanup E list_file w2)
              | (Inr (ok, msg), w2) \<Rightarrow>
                  if ok
                  then (Inr 0, cleanup E list_file
                          (print_out [msg, ''Done: '' @ output_path] w2))
                  else (Inr 2, cleanup E list_file
                          (print_err (''Failed to merge videos.''
                             # (if msg \<noteq> [] then [msg] else [])) w2))))"

definition main :: "env \<Rightarrow> args \<Rightarrow> world \<Rightarrow> (exn + int) \<times> world" where
  "main E a w =
     (if which_ffmpeg E = None
      then (Inr 1, print_err [''Error: ffmpeg is not installed or not in PATH.'',
                              ''Install via Homebrew: brew install ffmpeg''] w)
      else case discovered E a w of
        Inl e \<Rightarrow> (Inl e, w)
      | Inr video_files \<Rightarrow>
          if video_files = [] \<or> length video_files < 2
          then (Inr 0, print_out [''Found fewer than 2 video files to merge. Nothing to do.''] w)
          else
            let output_path = output_path_of E a;
                video_files' =
                  filter (\<lambda>f. abspath (getcwd E) (join (getcwd E) f) \<noteq> output_path) video_files
            in if length video_files' < 2
               then (Inr 0,
                     print_out [''After filtering, fewer than 2 inputs remain. Nothing to do.''] w)
               else merge_inputs E video_files' output_path w)"

section \<open>The specification's vocabulary\<close>

definition attempt_succeeds :: "completed \<Rightarrow> fs \<Rightarrow> string \<Rightarrow> bool" where
  \<comment> \<open>the success criterion in the specification's words: exit status zero, and the
      output path exists, and its size is greater than zero bytes\<close>
  "attempt_succeeds r f outp =
     (returncode r = 0 \<and> (\<exists>s. f outp = Some s \<and> 0 < st_size s))"

definition plain :: "string \<Rightarrow> bool" where
  \<comment> \<open>a name in which every character that \<open>str.isdigit\<close> accepts is a decimal digit\<close>
  "plain s = (\<forall>c \<in> set s. isdigit_char c \<longrightarrow> isdecimal c)"

fun typed :: "bool \<Rightarrow> key_elem list \<Rightarrow> bool" where
  \<comment> \<open>text and integers take turns; the flag says whether a text is due\<close>
  "typed b [] = True"
| "typed True (KStr t # ks) = typed False ks"
| "typed False (KInt n # ks) = typed True ks"
| "typed True (KInt n # ks) = False"
| "typed False (KStr t # ks) = False"

fun runs_ok :: "bool \<Rightarrow> string list \<Rightarrow> bool" where
  \<comment> \<open>runs without a digit and non-empty runs of digits take turns, and a run without a
      digit is the last\<close>
  "runs_ok text_turn [] = (\<not> text_turn)"
| "runs_ok True (t # ts) = ((\<forall>c \<in> set t. \<not> isdecimal c) \<and> runs_ok False ts)"
| "runs_ok False (t # ts) = (t \<noteq> [] \<and> (\<forall>c \<in> set t. isdecimal c) \<and> runs_ok True ts)"

fun key_of_runs :: "bool \<Rightarrow> string list \<Rightarrow> key_elem list" where
  \<comment> \<open>the key in the specification's words: a digit run by its integer value, another
      run as its text without case\<close>
  "key_of_runs text_turn [] = []"
| "key_of_runs True (t # ts) = KStr (lower t) # key_of_runs False ts"
| "key_of_runs False (t # ts) = KInt (decimal_value t) # key_of_runs True ts"

definition file_lines :: "string \<Rightarrow> string list" where
  \<comment> \<open>the lines of a text as a reader of lines sees them: cut at each newline\<close>
  "file_lines text =
     (let ps = split_on (CHR 0x0A) text in if last ps = [] then butlast ps else ps)"

fun read_quoted :: "bool \<Rightarrow> string \<Rightarrow> string option" where
  \<comment> \<open>Modelled from the spec: the reader of the list file's quoting, which belongs to the
      external tool. A quote opens or closes a quoted run; inside one every character is
      itself; outside, a backslash makes the next character itself ("close quote, escaped
      quote, reopen quote"). The flag says whether a quoted run is open; \<open>None\<close> is an
      unterminated quoted string.\<close>
  "read_quoted inq [] = (if inq then None else Some [])"
| "read_quoted True (c # cs) =
     (if c = CHR 0x27 then read_quoted False cs
      else map_option ((#) c) (read_quoted True cs))"
| "read_quoted False [c] =
     (if c = CHR 0x27 then None else if c = CHR 0x5C then Some [] else Some [c])"
| "read_quoted False (c # d # cs) =
     (if c = CHR 0x27 then read_quoted True (d # cs)
      else if c = CHR 0x5C then map_option ((#) d) (read_quoted False cs)
      else map_option ((#) c) (read_quoted False (d # cs)))"

definition with_manifest :: "env \<Rightarrow> string \<Rightarrow> string list \<Rightarrow> fs \<Rightarrow> fs" where
  \<comment> \<open>the file system once the list file \<open>name\<close> for the inputs \<open>ps\<close> has been written\<close>
  "with_manifest E name ps f =
     f(name \<mapsto> \<lparr>st_kind = Regular,
                 st_size = utf8_len (concat (map (manifest_line (getcwd E)) ps)),
                 st_text = concat (map (manifest_line (getcwd E)) ps)\<rparr>)"

definition exit_of :: "exn + bool \<times> string \<Rightarrow> exn + int" where
  \<comment> \<open>the exit code the specification gives a merge outcome: 0 for success, 2 when both
      strategies failed; an exception stays one\<close>
  "exit_of res = (case res of Inl e \<Rightarrow> Inl e | Inr (ok, msg) \<Rightarrow> Inr (if ok then 0 else 2))"

definition clean :: "string list \<Rightarrow> bool" where
  \<comment> \<open>path components as \<open>normpath\<close> leaves them below the root\<close>
  "clean cs = (\<forall>c \<in> set cs. c \<noteq> [] \<and> CHR ''/'' \<notin> set c \<and> c \<noteq> ''.'' \<and> c \<noteq> ''..'')"

section \<open>Sample environments\<close>

definition reg :: "nat \<Rightarrow> stat" where
  "reg n = \<lparr>st_kind = Regular, st_size = n, st_text = []\<rparr>"

definition ffmpeg_writes :: "string list \<Rightarrow> fs \<Rightarrow> (exn + completed) \<times> fs" where
  "ffmpeg_writes cmd f = (Inr \<lparr>returncode = 0, stderr = []\<rparr>, f(last cmd \<mapsto> reg 11))"

definition ffmpeg_needs_reencode ::
    "string list \<Rightarrow> fs \<Rightarrow> (exn + completed) \<times> fs" where
  "ffmpeg_needs_reencode cmd f =
     (if ''copy'' \<in> set cmd then (Inr \<lparr>returncode = 1, stderr = ''codec mismatch''\<rparr>, f)
      else (Inr \<lparr>returncode = 0, stderr = []\<rparr>, f(last cmd \<mapsto> reg 11)))"

definition ffmpeg_fails :: "string list \<Rightarrow> fs \<Rightarrow> (exn + completed) \<times> fs" where
  "ffmpeg_fails cmd f =
     (Inr \<lparr>returncode = 1,
           stderr = (if ''copy'' \<in> set cmd then [] else ''no such codec'')\<rparr>, f)"

definition ffmpeg_raises :: "string list \<Rightarrow> fs \<Rightarrow> (exn + completed) \<times> fs" where
  "ffmpeg_raises cmd f = (Inl (OtherError ''exec''), f)"

definition fs_demo :: fs where
  "fs_demo =
     [''/v/clip1.mp4'' \<mapsto> reg 5, ''/v/clip2.mp4'' \<mapsto> reg 6, ''/v/clip10.mp4'' \<mapsto> reg 7,
      ''/v/merged.mp4'' \<mapsto> reg 18, ''/v/notes.txt'' \<mapsto> reg 3,
      ''/v/clips'' \<mapsto> \<lparr>st_kind = Directory, st_size = 4096, st_text = []\<rparr>]"

definition env_demo :: env where
  "env_demo =
     \<lparr>getcwd = ''/v'', which_ffmpeg = Some ''/usr/bin/ffmpeg'',
      listdir = Inr [''clip2.mp4'', ''notes.txt'', ''clip10.mp4'', ''merged.mp4'', ''clips'',
                     ''clip1.mp4''],
      now = ''20250101_120000'', random_names = [''k3x9q2ab''],
      no_create = {}, no_unlink = {}, ffmpeg = ffmpeg_writes\<rparr>"

definition world_demo :: world where
  "world_demo = \<lparr>files = fs_demo, spawned = [], built = [], out = [], err = []\<rparr>"

definition list_demo :: string where
  "list_demo = ''/v/tmpk3x9q2ab_ffconcat.txt''"

definition out_demo :: string where
  "out_demo = ''/v/out.mp4''"

definition newline_name :: string where
  \<comment> \<open>a file name with a newline in it\<close>
  "newline_name = ''/v/a'' @ [CHR 0x0A] @ ''b.mp4''"

definition args_demo :: args where
  "args_demo = \<lparr>output_name_arg = Some ''merged.mp4'', include_hidden = False\<rparr>"

definition inputs_demo :: "string list" where
  "inputs_demo = [''/v/clip1.mp4'', ''/v/clip2.mp4'', ''/v/clip10.mp4'']"



definition superscript_name :: string where
  \<comment> \<open>the file name of U+00B2 (superscript two) followed by \<open>1.mp4\<close>\<close>
  "superscript_name = [CHR 0xB2] @ ''1.mp4''"

definition env_superscript :: env where
  "env_superscript = env_demo\<lparr>listdir := Inr [superscript_name]\<rparr>"

definition world_superscript :: world where
  "world_superscript = world_demo\<lparr>files := [''/v/'' @ superscript_name \<mapsto> reg 4]\<rparr>"

section \<open>Properties\<close>

lemmas demo_defs = env_demo_def world_demo_def fs_demo_def reg_def ffmpeg_writes_def
  ffmpeg_needs_reencode_def ffmpeg_fails_def ffmpeg_raises_def list_demo_def out_demo_def

subsection \<open>Video Classifier\<close>

lemma ext_txt: "lower (snd (splitext ''notes.txt'')) = ''.txt''"
  by code_simp

lemma ext_MP4: "lower (snd (splitext ''a.MP4'')) = ''.mp4''"
  by code_simp

text \<open>
  C5. The classifier is true exactly for a regular file whose extension, lowered, is a
  dot followed by one of mp4, mov, mkv, avi, webm, m4v, ts, mts, m2ts, 3gp. It is a total
  function to \<open>bool\<close>: it answers False where nothing is at the path, for a directory
  and for \<open>notes.txt\<close>, and True for a regular file \<open>a.MP4\<close>.
\<close>

theorem is_video_file_spec:
  "(is_video_file f p \<longleftrightarrow>
      (\<exists>s. f p = Some s \<and> st_kind s = Regular) \<and>
      (\<exists>e \<in> {''mp4'', ''mov'', ''mkv'', ''avi'', ''webm'', ''m4v'', ''ts'', ''mts'',
               ''m2ts'', ''3gp''}. lower (snd (splitext p)) = CHR ''.'' # e))
   \<and> (f p = None \<longrightarrow> \<not> is_video_file f p)
   \<and> ((\<exists>s. f p = Some s \<and> st_kind s = Directory) \<longrightarrow> \<not> is_video_file f p)
   \<and> \<not> is_video_file f ''notes.txt''
   \<and> (isfile f ''a.MP4'' \<longrightarrow> is_video_file f ''a.MP4'')"
proof -
  have a: "is_video_file f p \<longleftrightarrow>
      (\<exists>s. f p = Some s \<and> st_kind s = Regular) \<and>
      (\<exists>e \<in> {''mp4'', ''mov'', ''mkv'', ''avi'', ''webm'', ''m4v'', ''ts'', ''mts'',
               ''m2ts'', ''3gp''}. lower (snd (splitext p)) = CHR ''.'' # e)"
    unfolding is_video_file_def isfile_def SUPPORTED_EXTENSIONS_def
    by (cases "f p") auto
  have b: "f p = None \<longrightarrow> \<not> is_video_file f p"
    by (simp add: is_video_file_def isfile_def)
  have c: "(\<exists>s. f p = Some s \<and> st_kind s = Directory) \<longrightarrow> \<not> is_video_file f p"
    by (auto simp: is_video_file_def isfile_def)
  have d: "\<not> is_video_file f ''notes.txt''"
    by (simp add: is_video_file_def ext_txt SUPPORTED_EXTENSIONS_def)
  have e: "isfile f ''a.MP4'' \<longrightarrow> is_video_file f ''a.MP4''"
    by (simp add: is_video_file_def ext_MP4 SUPPORTED_EXTENSIONS_def)
  from a b c d e show ?thesis by blast
qed

theorem is_video_file_spec_witness:
  "fs_demo ''/v/gone.mp4'' = None \<and> \<not> is_video_file fs_demo ''/v/gone.mp4''
   \<and> (\<exists>s. fs_demo ''/v/clips'' = Some s \<and> st_kind s = Directory)
   \<and> \<not> is_video_file fs_demo ''/v/clips''
   \<and> isfile (fs_demo(''a.MP4'' \<mapsto> reg 9)) ''a.MP4''
   \<and> is_video_file (fs_demo(''a.MP4'' \<mapsto> reg 9)) ''a.MP4''"
proof -
  have h1: "fs_demo ''/v/gone.mp4'' = None"
    by (simp add: fs_demo_def)
  have h2: "\<exists>s. fs_demo ''/v/clips'' = Some s \<and> st_kind s = Directory"
    by (simp add: fs_demo_def)
  have h3: "isfile (fs_demo(''a.MP4'' \<mapsto> reg 9)) ''a.MP4''"
    by (simp add: isfile_def reg_def)
  from h1 is_video_file_spec [of fs_demo "''/v/gone.mp4''"]
  have c1: "\<not> is_video_file fs_demo ''/v/gone.mp4''" by blast
  from h2 is_video_file_spec [of fs_demo "''/v/clips''"]
  have c2: "\<not> is_video_file fs_demo ''/v/clips''" by blast
  from h3 is_video_file_spec [of "fs_demo(''a.MP4'' \<mapsto> reg 9)" "''a.MP4''"]
  have c3: "is_video_file (fs_demo(''a.MP4'' \<mapsto> reg 9)) ''a.MP4''" by blast
  from h1 h2 h3 c1 c2 c3 show ?thesis by (intro conjI)
qed

subsection \<open>Merge Executor\<close>




text \<open>
  C7. When both runs return and both miss the success criterion, the executor returns
  failure with the first run's error output if it is not empty, else the second run's if
  that is not empty, else the text "Unknown error from ffmpeg".
\<close>

theorem run_ffmpeg_concat_diagnostic:
  assumes "subprocess_run E (cmd_copy l outp) w = (Inr r1, w1)"
    and "\<not> attempt_succeeds r1 (files w1) outp"
    and "subprocess_run E (cmd_reencode l outp) w1 = (Inr r2, w2)"
    and "\<not> attempt_succeeds r2 (files w2) outp"
  shows "run_ffmpeg_concat E l outp w =
           (Inr (False,
              if stderr r1 \<noteq> [] then stderr r1
              else if stderr r2 \<noteq> [] then stderr r2
              else ''Unknown error from ffmpeg''), w2)"
  using assms
  unfolding run_ffmpeg_concat_def attempt_succeeds_def exists_path_def getsize_def
  by (auto split: option.splits)

theorem run_ffmpeg_concat_diagnostic_witness:
  "(let E = env_demo\<lparr>ffmpeg := ffmpeg_fails\<rparr>;
        w1 = world_demo\<lparr>spawned := [cmd_copy list_demo out_demo]\<rparr>;
        w2 = world_demo\<lparr>spawned := [cmd_copy list_demo out_demo,
                                     cmd_reencode list_demo out_demo]\<rparr>;
        r1 = \<lparr>returncode = 1, stderr = []\<rparr>;
        r2 = \<lparr>returncode = 1, stderr = ''no such codec''\<rparr>
    in subprocess_run E (cmd_copy list_demo out_demo) world_demo = (Inr r1, w1)
     \<and> \<not> attempt_succeeds r1 (files w1) out_demo
     \<and> subprocess_run E (cmd_reencode list_demo out_demo) w1 = (Inr r2, w2)
     \<and> \<not> attempt_succeeds r2 (files w2) out_demo
     \<and> run_ffmpeg_concat E list_demo out_demo world_demo
         = (Inr (False, ''no such codec''), w2))"
  using run_ffmpeg_concat_diagnostic
          [of "env_demo\<lparr>ffmpeg := ffmpeg_fails\<rparr>" list_demo out_demo
              world_demo "\<lparr>returncode = 1, stderr = []\<rparr>"
              "world_demo\<lparr>spawned := [cmd_copy list_demo out_demo]\<rparr>"
              "\<lparr>returncode = 1, stderr = ''no such codec''\<rparr>"
              "world_demo\<lparr>spawned := [cmd_copy list_demo out_demo,
                 cmd_reencode list_demo out_demo]\<rparr>"]
  by (simp add: Let_def demo_defs subprocess_run_def cmd_copy_def cmd_reencode_def
        attempt_succeeds_def)

subsection \<open>Manifest Builder\<close>

lemma split_on_nonempty: "split_on c s \<noteq> []"
  by (induction s) (auto split: list.splits)

lemma split_on_no_sep: "c \<notin> set s \<Longrightarrow> split_on c s = [s]"
  by (induction s) auto

lemma split_on_append_sep:
  "c \<notin> set s \<Longrightarrow> split_on c (s @ c # t) = s # split_on c t"
  by (induction s) (auto split: list.splits)

lemma file_lines_Cons:
  "CHR 0x0A \<notin> set l \<Longrightarrow> file_lines (l @ CHR 0x0A # t) = l # file_lines t"
  using split_on_nonempty [of "CHR 0x0A" t]
  by (auto simp: file_lines_def split_on_append_sep Let_def)

lemma file_lines_Nil: "file_lines [] = []"
  by (simp add: file_lines_def)

lemma file_lines_concat:
  "\<forall>l \<in> set ls. CHR 0x0A \<notin> set l \<Longrightarrow>
     file_lines (concat (map (\<lambda>l. l @ [CHR 0x0A]) ls)) = ls"
  by (induction ls) (simp_all add: file_lines_Nil file_lines_Cons)

lemma read_quoted_open:
  "t \<noteq> [] \<Longrightarrow> read_quoted False (CHR 0x27 # t) = read_quoted True t"
  by (cases t) simp_all

lemma read_quoted_escape:
  "read_quoted True (escape_quotes s @ CHR 0x27 # rest)
     = map_option ((@) s) (read_quoted False rest)"
proof (induction s)
  case Nil
  then show ?case by (simp add: escape_quotes_def option.map_ident)
next
  case (Cons c s)
  then show ?case
    by (cases "read_quoted False rest")
       (auto simp: escape_quotes_def option.map_comp comp_def read_quoted_open)
qed

lemma read_quoted_roundtrip:
  "read_quoted False (CHR 0x27 # escape_quotes s @ [CHR 0x27]) = Some s"
proof (cases "escape_quotes s @ [CHR 0x27]")
  case Nil then show ?thesis by simp
next
  case (Cons d ds)
  have "read_quoted False (CHR 0x27 # d # ds) = read_quoted True (d # ds)" by simp
  also have "\<dots> = read_quoted True (escape_quotes s @ CHR 0x27 # [])" using Cons by simp
  also have "\<dots> = Some s" by (simp only: read_quoted_escape) simp
  finally show ?thesis using Cons by simp
qed

lemma escape_no_newline: "CHR 0x0A \<notin> set s \<Longrightarrow> CHR 0x0A \<notin> set (escape_quotes s)"
  by (induction s) (auto simp: escape_quotes_def)

lemma startswith_slash: "startswith p ''/'' \<longleftrightarrow> (\<exists>t. p = CHR ''/'' # t)"
  by (cases p) (auto simp: startswith_def)

lemma isabs_join: "isabs cwd \<Longrightarrow> \<not> isabs p \<Longrightarrow> isabs (join cwd p)"
  by (auto simp: isabs_def join_def startswith_slash)

lemma isabs_normpath: "isabs p \<Longrightarrow> isabs (normpath p)"
  by (auto simp: isabs_def normpath_def startswith_slash Let_def numeral_2_eq_2)

lemma isabs_abspath: "isabs cwd \<Longrightarrow> isabs (abspath cwd p)"
  by (simp add: abspath_def isabs_join isabs_normpath)

lemma build_text:
  "fst (build_filelist_file E ps dir w) = Inr name \<Longrightarrow>
     \<exists>s. files (snd (build_filelist_file E ps dir w)) name = Some s
       \<and> st_text s = concat (map (manifest_line (getcwd E)) ps)"
  by (auto simp: build_filelist_file_def Let_def split: if_splits sum.splits)

lemma build_outcome_indep:
  "fst (build_filelist_file E ps dir w) = fst (build_filelist_file E qs dir w)"
  by (auto simp: build_filelist_file_def Let_def split: if_splits sum.splits)

text \<open>
  C10. With an absolute working directory, the text of the list file is, for each given
  path in order, the record \<open>file '...'\<close> of the escaped absolute form of the path,
  and each such form is absolute, also for a relative path. Whether the builder succeeds,
  and under which name, is the same for every list of paths: no path is looked up.
\<close>

theorem build_filelist_file_abspath:
  "isabs (getcwd E) \<Longrightarrow> fst (build_filelist_file E ps dir w) = Inr name \<Longrightarrow>
     (\<exists>s. files (snd (build_filelist_file E ps dir w)) name = Some s
        \<and> st_text s =
            concat (map (\<lambda>p. ''file '' @ [CHR 0x27] @ escape_quotes (abspath (getcwd E) p)
                              @ [CHR 0x27] @ [CHR 0x0A]) ps))
     \<and> (\<forall>p \<in> set ps. isabs (abspath (getcwd E) p))
     \<and> (\<forall>qs. fst (build_filelist_file E qs dir w) = Inr name)"
proof -
  assume a: "isabs (getcwd E)" and b: "fst (build_filelist_file E ps dir w) = Inr name"
  have 1: "\<exists>s. files (snd (build_filelist_file E ps dir w)) name = Some s
        \<and> st_text s =
            concat (map (\<lambda>p. ''file '' @ [CHR 0x27] @ escape_quotes (abspath (getcwd E) p)
                              @ [CHR 0x27] @ [CHR 0x0A]) ps)"
  proof -
    have ml: "manifest_line (getcwd E) =
        (\<lambda>p. ''file '' @ [CHR 0x27] @ escape_quotes (abspath (getcwd E) p)
               @ [CHR 0x27] @ [CHR 0x0A])"
      by (rule ext) (simp add: manifest_line_def)
    show ?thesis using build_text [OF b] unfolding ml .
  qed
  have 2: "\<forall>p \<in> set ps. isabs (abspath (getcwd E) p)"
    using a by (simp add: isabs_abspath)
  have 3: "\<forall>qs. fst (build_filelist_file E qs dir w) = Inr name"
    using b build_outcome_indep [of E _ dir w ps] by simp
  from 1 2 3 show ?thesis by blast
qed

theorem build_filelist_file_abspath_witness:
  "isabs (getcwd env_demo)
   \<and> fst (build_filelist_file env_demo [''clip1.mp4'', ''sub/../it's.mp4''] ''/v'' world_demo)
       = Inr list_demo
   \<and> map_option st_text
       (files (snd (build_filelist_file env_demo [''clip1.mp4'', ''sub/../it's.mp4''] ''/v''
          world_demo)) list_demo)
     = Some (''file '' @ [CHR 0x27] @ ''/v/clip1.mp4'' @ [CHR 0x27, CHR 0x0A]
           @ ''file '' @ [CHR 0x27] @ ''/v/it'' @ [CHR 0x27, CHR 0x5C, CHR 0x27, CHR 0x27]
           @ ''s.mp4'' @ [CHR 0x27, CHR 0x0A])
   \<and> isabs (abspath (getcwd env_demo) ''clip1.mp4'')"
proof -
  have a: "isabs (getcwd env_demo)"
    by code_simp
  have b: "fst (build_filelist_file env_demo [''clip1.mp4'', ''sub/../it's.mp4''] ''/v''
             world_demo) = Inr list_demo"
    by code_simp
  have c: "map_option st_text
       (files (snd (build_filelist_file env_demo [''clip1.mp4'', ''sub/../it's.mp4''] ''/v''
          world_demo)) list_demo)
     = Some (''file '' @ [CHR 0x27] @ ''/v/clip1.mp4'' @ [CHR 0x27, CHR 0x0A]
           @ ''file '' @ [CHR 0x27] @ ''/v/it'' @ [CHR 0x27, CHR 0x5C, CHR 0x27, CHR 0x27]
           @ ''s.mp4'' @ [CHR 0x27, CHR 0x0A])"
    by code_simp
  from build_filelist_file_abspath [OF a b]
  have d: "isabs (abspath (getcwd env_demo) ''clip1.mp4'')" by simp
  from a b c d show ?thesis by (intro conjI)
qed

text \<open>
  C6, as the code has it. For input paths whose absolute forms hold no newline, the list
  file has exactly one line for each input, in order, each \<open>file '...'\<close> with every
  single quote of the absolute path replaced by the four characters quote, backslash,
  quote, quote; and the quoted string of every line reads back as the path, so it is
  never unterminated. (The text itself, for every list of paths, is in C10.)
\<close>

theorem build_filelist_file_lines:
  "fst (build_filelist_file E ps dir w) = Inr name \<Longrightarrow>
   \<forall>p \<in> set ps. CHR 0x0A \<notin> set (abspath (getcwd E) p) \<Longrightarrow>
     (\<exists>s. files (snd (build_filelist_file E ps dir w)) name = Some s
        \<and> file_lines (st_text s) =
            map (\<lambda>p. ''file '' @ [CHR 0x27] @ escape_quotes (abspath (getcwd E) p) @ [CHR 0x27])
              ps)
     \<and> (\<forall>p \<in> set ps.
           read_quoted False ([CHR 0x27] @ escape_quotes (abspath (getcwd E) p) @ [CHR 0x27])
             = Some (abspath (getcwd E) p))"
proof -
  assume b: "fst (build_filelist_file E ps dir w) = Inr name"
    and n: "\<forall>p \<in> set ps. CHR 0x0A \<notin> set (abspath (getcwd E) p)"
  let ?l = "\<lambda>p. ''file '' @ [CHR 0x27] @ escape_quotes (abspath (getcwd E) p) @ [CHR 0x27]"
  from build_text [OF b] obtain s where
    s: "files (snd (build_filelist_file E ps dir w)) name = Some s"
      "st_text s = concat (map (manifest_line (getcwd E)) ps)" by blast
  have eq: "map (manifest_line (getcwd E)) ps = map (\<lambda>l. l @ [CHR 0x0A]) (map ?l ps)"
    by (simp add: manifest_line_def)
  have nl: "\<forall>l \<in> set (map ?l ps). CHR 0x0A \<notin> set l"
    using n by (auto dest: escape_no_newline)
  have "file_lines (st_text s) = map ?l ps"
    unfolding s(2) eq by (rule file_lines_concat [OF nl])
  with s(1) have 1: "\<exists>s. files (snd (build_filelist_file E ps dir w)) name = Some s
        \<and> file_lines (st_text s) = map ?l ps" by blast
  have 2: "\<forall>p \<in> set ps.
           read_quoted False ([CHR 0x27] @ escape_quotes (abspath (getcwd E) p) @ [CHR 0x27])
             = Some (abspath (getcwd E) p)"
    using read_quoted_roundtrip by simp
  from 1 2 show ?thesis by blast
qed

theorem build_filelist_file_lines_witness:
  "fst (build_filelist_file env_demo [''it's.mp4''] ''/v'' world_demo) = Inr list_demo
   \<and> CHR 0x0A \<notin> set (abspath (getcwd env_demo) ''it's.mp4'')
   \<and> read_quoted False
         ([CHR 0x27] @ escape_quotes (abspath (getcwd env_demo) ''it's.mp4'') @ [CHR 0x27])
       = Some ''/v/it's.mp4''"
proof -
  have b: "fst (build_filelist_file env_demo [''it's.mp4''] ''/v'' world_demo) = Inr list_demo"
    by code_simp
  have n: "\<forall>p \<in> set [''it's.mp4'']. CHR 0x0A \<notin> set (abspath (getcwd env_demo) p)"
    by code_simp
  have v: "abspath (getcwd env_demo) ''it's.mp4'' = ''/v/it's.mp4''"
    by code_simp
  from build_filelist_file_lines [OF b n]
  have "read_quoted False
         ([CHR 0x27] @ escape_quotes (abspath (getcwd env_demo) ''it's.mp4'') @ [CHR 0x27])
       = Some (abspath (getcwd env_demo) ''it's.mp4'')" by simp
  with v have r: "read_quoted False
         ([CHR 0x27] @ escape_quotes (abspath (getcwd env_demo) ''it's.mp4'') @ [CHR 0x27])
       = Some ''/v/it's.mp4''" by simp
  have n': "CHR 0x0A \<notin> set (abspath (getcwd env_demo) ''it's.mp4'')"
    using n by simp
  from b n' r show ?thesis by (intro conjI)
qed

text \<open>
  The claim as stated fails for a path with a newline in it: one input, two lines, and
  the first line ends inside its quoted string.
\<close>

theorem build_filelist_file_lines_counterexample:
  "fst (build_filelist_file env_demo [newline_name] ''/v'' world_demo) = Inr list_demo
   \<and> map_option (file_lines \<circ> st_text)
       (files (snd (build_filelist_file env_demo [newline_name] ''/v'' world_demo)) list_demo)
     = Some [''file '' @ [CHR 0x27] @ ''/v/a'', ''b.mp4'' @ [CHR 0x27]]
   \<and> read_quoted False ([CHR 0x27] @ ''/v/a'') = None"
  by code_simp

subsection \<open>Normal paths\<close>

lemma split_on_pieces: "c \<in> set (split_on s x) \<Longrightarrow> s \<notin> set c"
  by (induction x arbitrary: c) (auto split: if_splits list.splits)

lemma norm_step_clean:
  "clean acc \<Longrightarrow> CHR ''/'' \<notin> set c \<Longrightarrow> clean (norm_step True acc c)"
  by (auto simp: clean_def norm_step_def dest: in_set_butlastD)

lemma foldl_norm_clean:
  "clean acc \<Longrightarrow> \<forall>c \<in> set cs. CHR ''/'' \<notin> set c \<Longrightarrow> clean (foldl (norm_step True) acc cs)"
  by (induction cs arbitrary: acc) (simp_all add: norm_step_clean)

lemma foldl_norm_append:
  "clean cs \<Longrightarrow> foldl (norm_step True) acc cs = acc @ cs"
  by (induction cs arbitrary: acc) (auto simp: clean_def norm_step_def)

lemma sep_join_head:
  "clean cs \<Longrightarrow> sep_join cs = [] \<or> hd (sep_join cs) \<noteq> CHR ''/''"
proof (cases cs)
  case Nil then show ?thesis by simp
next
  case (Cons c ds)
  assume "clean cs"
  with Cons have c: "c \<noteq> []" "CHR ''/'' \<notin> set c" by (auto simp: clean_def)
  then have "hd c \<noteq> CHR ''/''" by (cases c) auto
  moreover have "hd (sep_join (c # ds)) = hd c" using c(1) by (cases ds) simp_all
  ultimately show ?thesis using Cons by simp
qed

lemma split_on_sep_join:
  "clean cs \<Longrightarrow> cs \<noteq> [] \<Longrightarrow> split_on (CHR ''/'') (sep_join cs) = cs"
proof (induction cs rule: sep_join.induct)
  case 1 then show ?case by simp
next
  case (2 c) then show ?case by (simp add: clean_def split_on_no_sep)
next
  case (3 c d cs)
  then have "CHR ''/'' \<notin> set c" and "clean (d # cs)" by (auto simp: clean_def)
  with 3 show ?case by (simp add: split_on_append_sep)
qed

lemma foldl_norm_split:
  "clean cs \<Longrightarrow> foldl (norm_step True) [] (split_on (CHR ''/'') (sep_join cs)) = cs"
proof (cases "cs = []")
  case True then show ?thesis by (simp add: norm_step_def)
next
  case False
  assume "clean cs"
  with False show ?thesis by (simp add: split_on_sep_join foldl_norm_append)
qed

lemma normpath_fixed1:
  assumes "clean cs"
  shows "normpath (CHR ''/'' # sep_join cs) = CHR ''/'' # sep_join cs"
proof -
  have h: "sep_join cs = [] \<or> hd (sep_join cs) \<noteq> CHR ''/''" using assms by (rule sep_join_head)
  then have ns: "\<not> startswith (CHR ''/'' # sep_join cs) ''//''"
    by (cases "sep_join cs") (auto simp: startswith_def)
  have s: "startswith (CHR ''/'' # sep_join cs) ''/''" by (simp add: startswith_def)
  have f: "foldl (norm_step True) [] (split_on (CHR ''/'') (CHR ''/'' # sep_join cs)) = cs"
    using foldl_norm_split [OF assms] by (simp add: norm_step_def)
  show ?thesis unfolding normpath_def Let_def using ns s f by simp
qed

lemma normpath_fixed2:
  assumes "clean cs"
  shows "normpath (CHR ''/'' # CHR ''/'' # sep_join cs) = CHR ''/'' # CHR ''/'' # sep_join cs"
proof -
  have h: "sep_join cs = [] \<or> hd (sep_join cs) \<noteq> CHR ''/''" using assms by (rule sep_join_head)
  then have ns: "\<not> startswith (CHR ''/'' # CHR ''/'' # sep_join cs) ''///''"
    by (cases "sep_join cs") (auto simp: startswith_def)
  have s: "startswith (CHR ''/'' # CHR ''/'' # sep_join cs) ''/''"
      "startswith (CHR ''/'' # CHR ''/'' # sep_join cs) ''//''" by (simp_all add: startswith_def)
  have f: "foldl (norm_step True) [] (split_on (CHR ''/'') (CHR ''/'' # CHR ''/'' # sep_join cs)) = cs"
    using foldl_norm_split [OF assms] by (simp add: norm_step_def)
  show ?thesis unfolding normpath_def Let_def using ns s f by (simp add: numeral_2_eq_2)
qed

lemma normpath_abs_form:
  assumes "isabs p"
  shows "\<exists>cs. clean cs \<and> (normpath p = CHR ''/'' # sep_join cs
                        \<or> normpath p = CHR ''/'' # CHR ''/'' # sep_join cs)"
proof -
  let ?cs = "foldl (norm_step True) [] (split_on (CHR ''/'') p)"
  have c: "clean ?cs"
    by (rule foldl_norm_clean) (auto simp: clean_def dest: split_on_pieces)
  from assms have ne: "p \<noteq> []" and s: "startswith p ''/''"
    by (auto simp: isabs_def startswith_def)
  have "normpath p = CHR ''/'' # sep_join ?cs \<or> normpath p = CHR ''/'' # CHR ''/'' # sep_join ?cs"
    unfolding normpath_def Let_def using ne s by (simp add: numeral_2_eq_2)
  with c show ?thesis by blast
qed

lemma normpath_idem: "isabs p \<Longrightarrow> normpath (normpath p) = normpath p"
  using normpath_abs_form [of p] normpath_fixed1 normpath_fixed2 by auto

lemma abspath_abspath: "isabs cwd \<Longrightarrow> abspath cwd (abspath cwd p) = abspath cwd p"
proof -
  assume a: "isabs cwd"
  let ?q = "if \<not> isabs p then join cwd p else p"
  have q: "isabs ?q" using a by (simp add: isabs_join)
  have "abspath cwd p = normpath ?q" by (simp add: abspath_def)
  moreover have "isabs (normpath ?q)" using q by (rule isabs_normpath)
  ultimately show ?thesis using normpath_idem [OF q] by (simp add: abspath_def)
qed

subsection \<open>Orchestrator\<close>

lemma subprocess_run_fields:
  "built (snd (subprocess_run E cmd w)) = built w"
  "out (snd (subprocess_run E cmd w)) = out w"
  "err (snd (subprocess_run E cmd w)) = err w"
  "spawned (snd (subprocess_run E cmd w)) = spawned w @ [cmd]"
  by (simp_all add: subprocess_run_def split: prod.splits)

lemma run_ffmpeg_concat_fields:
  "built (snd (run_ffmpeg_concat E l outp w)) = built w"
  "out (snd (run_ffmpeg_concat E l outp w)) = out w"
  "err (snd (run_ffmpeg_concat E l outp w)) = err w"
  by (auto simp: run_ffmpeg_concat_def subprocess_run_def split: prod.splits sum.splits)

lemma run_ffmpeg_concat_spawned:
  "\<exists>log. spawned (snd (run_ffmpeg_concat E l outp w)) = spawned w @ log
         \<and> set log \<subseteq> {cmd_copy l outp, cmd_reencode l outp}"
  by (auto simp: run_ffmpeg_concat_def subprocess_run_def split: prod.splits sum.splits)

lemma cleanup_fields:
  "built (cleanup E l w) = built w"
  "spawned (cleanup E l w) = spawned w"
  "out (cleanup E l w) = out w"
  "err (cleanup E l w) = err w"
  by (auto simp: cleanup_def os_remove_def split: option.splits)



lemma print_fields:
  "files (print_out ls w) = files w" "built (print_out ls w) = built w"
  "spawned (print_out ls w) = spawned w" "err (print_out ls w) = err w"
  "out (print_out ls w) = out w @ ls"
  "files (print_err ls w) = files w" "built (print_err ls w) = built w"
  "spawned (print_err ls w) = spawned w" "out (print_err ls w) = out w"
  "err (print_err ls w) = err w @ ls"
  by (simp_all add: print_out_def print_err_def)

lemma mkstemp_inner_free: "mkstemp_inner f dir ns = Inr name \<Longrightarrow> f name = None"
  by (induction ns) (auto simp: Let_def exists_path_def split: if_splits)

lemma build_cases:
  obtains (fail) e where "build_filelist_file E ps dir w = (Inl e, w)"
  | (ok) name where
      "build_filelist_file E ps dir w =
         (Inr name,
          w\<lparr>files := (files w)(name \<mapsto>
               \<lparr>st_kind = Regular, st_size = utf8_len (concat (map (manifest_line (getcwd E)) ps)),
                st_text = concat (map (manifest_line (getcwd E)) ps)\<rparr>),
            built := built w @ [(name, ps)]\<rparr>)"
      "files w name = None"
proof (cases "dir \<in> no_create E")
  case True
  then have "build_filelist_file E ps dir w = (Inl PermissionError, w)"
    by (simp add: build_filelist_file_def)
  then show ?thesis by (rule fail)
next
  case nc: False
  show ?thesis
  proof (cases "mkstemp_inner (files w) dir (random_names E)")
    case (Inl e)
    with nc have "build_filelist_file E ps dir w = (Inl e, w)"
      by (simp add: build_filelist_file_def)
    then show ?thesis by (rule fail)
  next
    case (Inr name)
    with nc have "build_filelist_file E ps dir w =
         (Inr name,
          w\<lparr>files := (files w)(name \<mapsto>
               \<lparr>st_kind = Regular, st_size = utf8_len (concat (map (manifest_line (getcwd E)) ps)),
                st_text = concat (map (manifest_line (getcwd E)) ps)\<rparr>),
            built := built w @ [(name, ps)]\<rparr>)"
      by (simp add: build_filelist_file_def Let_def)
    moreover have "files w name = None" using Inr by (rule mkstemp_inner_free)
    ultimately show ?thesis by (rule ok)
  qed
qed

lemma main_cases:
  obtains (no_ffmpeg) "which_ffmpeg E = None"
      "main E a w = (Inr 1, print_err [''Error: ffmpeg is not installed or not in PATH.'',
                              ''Install via Homebrew: brew install ffmpeg''] w)"
  | (raised) e where "which_ffmpeg E \<noteq> None" "discovered E a w = Inl e" "main E a w = (Inl e, w)"
  | (few) vs where "which_ffmpeg E \<noteq> None" "discovered E a w = Inr vs" "length vs < 2"
      "main E a w =
         (Inr 0, print_out [''Found fewer than 2 video files to merge. Nothing to do.''] w)"
  | (few_left) vs where "which_ffmpeg E \<noteq> None" "discovered E a w = Inr vs" "2 \<le> length vs"
      "length (filter (\<lambda>f. abspath (getcwd E) (join (getcwd E) f) \<noteq> output_path_of E a) vs) < 2"
      "main E a w =
         (Inr 0, print_out [''After filtering, fewer than 2 inputs remain. Nothing to do.''] w)"
  | (merge) vs where "which_ffmpeg E \<noteq> None" "discovered E a w = Inr vs" "2 \<le> length vs"
      "2 \<le> length (filter (\<lambda>f. abspath (getcwd E) (join (getcwd E) f) \<noteq> output_path_of E a) vs)"
      "main E a w =
         merge_inputs E
           (filter (\<lambda>f. abspath (getcwd E) (join (getcwd E) f) \<noteq> output_path_of E a) vs)
           (output_path_of E a) w"
proof (cases "which_ffmpeg E = None")
  case True
  then have "main E a w = (Inr 1, print_err [''Error: ffmpeg is not installed or not in PATH.'',
                              ''Install via Homebrew: brew install ffmpeg''] w)"
    by (simp add: main_def)
  with True show ?thesis by (rule no_ffmpeg)
next
  case nf: False
  show ?thesis
  proof (cases "discovered E a w")
    case (Inl e)
    with nf have "main E a w = (Inl e, w)" by (simp add: main_def)
    with nf Inl show ?thesis by (rule raised)
  next
    case (Inr vs)
    show ?thesis
    proof (cases "length vs < 2")
      case True
      with nf Inr have "main E a w =
         (Inr 0, print_out [''Found fewer than 2 video files to merge. Nothing to do.''] w)"
        by (auto simp: main_def)
      with nf Inr True show ?thesis by (rule few)
    next
      case False
      then have l2: "2 \<le> length vs" and ne: "vs \<noteq> []" by auto
      let ?vs' = "filter (\<lambda>f. abspath (getcwd E) (join (getcwd E) f) \<noteq> output_path_of E a) vs"
      show ?thesis
      proof (cases "length ?vs' < 2")
        case True
        with nf Inr False ne have "main E a w =
           (Inr 0, print_out [''After filtering, fewer than 2 inputs remain. Nothing to do.''] w)"
          by (auto simp: main_def Let_def)
        with nf Inr l2 True show ?thesis by (rule few_left)
      next
        case f2: False
        then have l3: "2 \<le> length ?vs'" by simp
        from nf Inr False ne f2 have "main E a w = merge_inputs E ?vs' (output_path_of E a) w"
          by (auto simp: main_def Let_def)
        with nf Inr l2 l3 show ?thesis by (rule merge)
      qed
    qed
  qed
qed



lemma merge_inputs_cases:
  fixes E vs outp w
  defines "w0 \<equiv> print_out (''Merging the following files in order:''
                 # map (\<lambda>f. '' - '' @ f) vs) w"
  obtains (build_failed) e where "merge_inputs E vs outp w = (Inl e, w0)"
  | (ran) name w1 res w2 where
      "files w name = None"
      "files w1 = with_manifest E name (map (join (getcwd E)) vs) (files w)"
      "built w1 = built w @ [(name, map (join (getcwd E)) vs)]"
      "spawned w1 = spawned w"
      "run_ffmpeg_concat E name outp w1 = (res, w2)"
      "fst (merge_inputs E vs outp w) = exit_of res"
      "files (snd (merge_inputs E vs outp w)) = files (cleanup E name w2)"
      "built (snd (merge_inputs E vs outp w)) = built w1"
      "spawned (snd (merge_inputs E vs outp w)) = spawned w2"
proof (cases rule: build_cases [of E "map (join (getcwd E)) vs" "getcwd E" w0])
  case (fail e)
  then have "merge_inputs E vs outp w = (Inl e, w0)"
    by (simp add: merge_inputs_def w0_def Let_def)
  then show ?thesis by (rule build_failed)
next
  case (ok name)
  define w1 where "w1 = snd (build_filelist_file E (map (join (getcwd E)) vs) (getcwd E) w0)"
  define res where "res = fst (run_ffmpeg_concat E name outp w1)"
  define w2 where "w2 = snd (run_ffmpeg_concat E name outp w1)"
  have b: "build_filelist_file E (map (join (getcwd E)) vs) (getcwd E) w0 = (Inr name, w1)"
    using ok(1) by (simp add: w1_def)
  have r: "run_ffmpeg_concat E name outp w1 = (res, w2)"
    by (simp add: res_def w2_def)
  have 1: "files w name = None" using ok(2) by (simp add: w0_def print_fields)
  have 2: "files w1 = with_manifest E name (map (join (getcwd E)) vs) (files w)"
    using ok(1) by (simp add: w1_def w0_def print_fields with_manifest_def)
  have 3: "built w1 = built w @ [(name, map (join (getcwd E)) vs)]"
    using ok(1) by (simp add: w1_def w0_def print_fields)
  have 4: "spawned w1 = spawned w"
    using ok(1) by (simp add: w1_def w0_def print_fields)
  have m: "merge_inputs E vs outp w =
      (case res of
         Inl e \<Rightarrow> (Inl e, cleanup E name w2)
       | Inr (ok, msg) \<Rightarrow>
           if ok then (Inr 0, cleanup E name (print_out [msg, ''Done: '' @ outp] w2))
           else (Inr 2, cleanup E name
                   (print_err (''Failed to merge videos.'' # (if msg \<noteq> [] then [msg] else []))
                      w2)))"
    using b r unfolding merge_inputs_def Let_def w0_def [symmetric]
    by (simp split: sum.splits prod.splits)
  have bw2: "built w2 = built w1"
    using run_ffmpeg_concat_fields(1) [of E name outp w1] r by simp
  have 5: "fst (merge_inputs E vs outp w) = exit_of res"
    unfolding m exit_of_def by (simp split: sum.splits prod.splits)
  have cf: "\<And>ls. files (cleanup E name (print_out ls w2)) = files (cleanup E name w2)"
      "\<And>ls. files (cleanup E name (print_err ls w2)) = files (cleanup E name w2)"
    by (simp_all add: cleanup_def os_remove_def print_out_def print_err_def exists_path_def
          split: option.splits)
  have 6: "files (snd (merge_inputs E vs outp w)) = files (cleanup E name w2)"
    unfolding m by (simp add: cf split: sum.splits prod.splits)
  have 7: "built (snd (merge_inputs E vs outp w)) = built w1"
    unfolding m by (simp add: cleanup_fields print_fields bw2 split: sum.splits prod.splits)
  have 8: "spawned (snd (merge_inputs E vs outp w)) = spawned w2"
    unfolding m by (simp add: cleanup_fields print_fields split: sum.splits prod.splits)
  from 1 2 3 4 r 5 6 7 8 show ?thesis by (rule ran)
qed





text \<open>
  C9. In a process with an absolute working directory, a run either builds no list file
  and spawns nothing, or builds one list file for at least two inputs and spawns only
  the two commands on that file and the resolved output path. No input given to the
  builder is the resolved output path, and none has it as its absolute form, which is
  what the list file holds. This is so whatever the directory holds, and so also on a
  second run with the same \<open>--output\<close> name.
\<close>

theorem main_excludes_output:
  "isabs (getcwd E) \<Longrightarrow> main E a w = (r, w') \<Longrightarrow>
     (built w' = built w \<and> spawned w' = spawned w)
   \<or> (\<exists>name ps log. built w' = built w @ [(name, ps)] \<and> spawned w' = spawned w @ log
        \<and> set log \<subseteq> {cmd_copy name (output_path_of E a), cmd_reencode name (output_path_of E a)}
        \<and> 2 \<le> length ps
        \<and> (\<forall>p \<in> set ps. p \<noteq> output_path_of E a
                        \<and> abspath (getcwd E) p \<noteq> output_path_of E a))"
proof -
  assume ab: "isabs (getcwd E)" and m: "main E a w = (r, w')"
  show ?thesis
  proof (cases rule: main_cases [of E a w])
    case no_ffmpeg
    with m show ?thesis by (auto simp: print_fields)
  next
    case (raised e)
    with m show ?thesis by auto
  next
    case (few vs)
    with m show ?thesis by (auto simp: print_fields)
  next
    case (few_left vs)
    with m show ?thesis by (auto simp: print_fields)
  next
    case (merge vs)
    let ?out = "output_path_of E a"
    let ?vs = "filter (\<lambda>f. abspath (getcwd E) (join (getcwd E) f) \<noteq> ?out) vs"
    from m merge(5) have mi: "merge_inputs E ?vs ?out w = (r, w')" by simp
    show ?thesis
    proof (cases rule: merge_inputs_cases [of E ?vs ?out w])
      case (build_failed e)
      with mi show ?thesis by (auto simp: print_fields)
    next
      case (ran name w1 res w2)
      from run_ffmpeg_concat_spawned [of E name ?out w1] ran(5) obtain log where
        log: "spawned w2 = spawned w1 @ log"
          "set log \<subseteq> {cmd_copy name ?out, cmd_reencode name ?out}" by auto
      have b: "built w' = built w @ [(name, map (join (getcwd E)) ?vs)]"
        using ran(8) ran(3) mi by simp
      have s: "spawned w' = spawned w @ log"
        using ran(9) ran(4) log(1) mi by simp
      have l: "2 \<le> length (map (join (getcwd E)) ?vs)" using merge(4) by simp
      have fix_out: "abspath (getcwd E) ?out = ?out"
        using abspath_abspath [OF ab] by (simp add: output_path_of_def Let_def)
      have n: "\<forall>p \<in> set (map (join (getcwd E)) ?vs).
                 p \<noteq> ?out \<and> abspath (getcwd E) p \<noteq> ?out"
        using fix_out by auto
      from b s log(2) l n show ?thesis by blast
    qed
  qed
qed

theorem main_excludes_output_witness:
  "isabs (getcwd env_demo)
   \<and> built (snd (main env_demo args_demo world_demo)) = [(list_demo, inputs_demo)]
   \<and> output_path_of env_demo args_demo = ''/v/merged.mp4''
   \<and> ''/v/clip1.mp4'' \<noteq> output_path_of env_demo args_demo
   \<and> abspath (getcwd env_demo) ''/v/clip1.mp4'' \<noteq> output_path_of env_demo args_demo"
proof -
  have a: "isabs (getcwd env_demo)"
    by code_simp
  have b: "built (snd (main env_demo args_demo world_demo)) = [(list_demo, inputs_demo)]"
    by code_simp
  have c: "output_path_of env_demo args_demo = ''/v/merged.mp4''"
    by code_simp
  have e: "built world_demo = []"
    by (simp add: world_demo_def)
  from main_excludes_output [OF a surjective_pairing, of args_demo world_demo] b e
  have d: "\<forall>p \<in> set inputs_demo. p \<noteq> output_path_of env_demo args_demo
         \<and> abspath (getcwd env_demo) p \<noteq> output_path_of env_demo args_demo"
    by auto
  have i: "''/v/clip1.mp4'' \<in> set inputs_demo"
    by (simp add: inputs_demo_def)
  from d i have d1: "''/v/clip1.mp4'' \<noteq> output_path_of env_demo args_demo"
    and d2: "abspath (getcwd env_demo) ''/v/clip1.mp4'' \<noteq> output_path_of env_demo args_demo"
    by blast+
  from a b c d1 d2 show ?thesis by (intro conjI)
qed



subsection \<open>Natural Order Comparator: names without a superscript digit\<close>

text \<open>
  The split loses nothing and gives runs without a digit and runs of digits in turn. On
  a name in which \<open>str.isdigit\<close> accepts only decimal digits, the key exists, holds
  text at the even positions and integers at the odd ones, and is the key of the
  specification's words; keys of such names always compare, and the comparison is
  irreflexive, transitive and total up to equal keys, so a strict weak order.
\<close>

lemma key_of_piece_text:
  assumes "plain t" and "\<forall>c \<in> set t. \<not> isdecimal c"
  shows "key_of_piece t = Inr (KStr (lower t))"
proof -
  have "\<not> isdigit t"
  proof (cases t)
    case Nil then show ?thesis by (simp add: isdigit_def)
  next
    case (Cons c cs)
    with assms have "\<not> isdigit_char c" by (auto simp: plain_def)
    with Cons show ?thesis by (simp add: isdigit_def)
  qed
  then show ?thesis by (simp add: key_of_piece_def)
qed

lemma key_of_piece_digits:
  assumes "t \<noteq> []" and "\<forall>c \<in> set t. isdecimal c"
  shows "key_of_piece t = Inr (KInt (decimal_value t))"
proof -
  have "list_all isdecimal t" using assms(2) by (simp add: list_all_iff)
  moreover have "list_all isdigit_char t"
    using assms(2) by (simp add: list_all_iff isdigit_char_def)
  ultimately show ?thesis using assms(1) by (simp add: key_of_piece_def isdigit_def py_int_def)
qed

lemma plain_subset: "plain s \<Longrightarrow> set t \<subseteq> set s \<Longrightarrow> plain t"
  by (auto simp: plain_def)

lemma natural_sort_key_plain:
  "plain s \<Longrightarrow> \<exists>k. natural_sort_key s = Inr k \<and> typed True k"
proof (induction s rule: re_split.induct)
  case (1 s)
  let ?pre = "takeWhile (\<lambda>c. \<not> isdecimal c) s"
  let ?rest = "dropWhile (\<lambda>c. \<not> isdecimal c) s"
  have pre: "key_of_piece ?pre = Inr (KStr (lower ?pre))"
  proof (rule key_of_piece_text)
    show "plain ?pre" using "1.prems" by (rule plain_subset) (auto dest: set_takeWhileD)
    show "\<forall>c \<in> set ?pre. \<not> isdecimal c" by (auto dest: set_takeWhileD)
  qed
  have unf: "re_split s =
      (case ?rest of
         [] \<Rightarrow> [?pre]
       | d # ds \<Rightarrow> ?pre # (d # takeWhile isdecimal ds) # re_split (dropWhile isdecimal ds))"
    by (subst re_split.simps) (simp only: Let_def)
  show ?case
  proof (cases ?rest)
    case Nil
    have "re_split s = [?pre]" using unf by (simp only: Nil list.case)
    with pre show ?thesis by (simp add: natural_sort_key_def)
  next
    case (Cons d ds)
    let ?dg = "d # takeWhile isdecimal ds"
    let ?tl = "dropWhile isdecimal ds"
    have rs: "re_split s = ?pre # ?dg # re_split ?tl"
      using unf by (simp only: Cons list.case)
    have "d \<in> set ?rest" using Cons by simp
    have d: "isdecimal d" using hd_dropWhile [of "\<lambda>c. \<not> isdecimal c" s] Cons by simp
    have dg: "key_of_piece ?dg = Inr (KInt (decimal_value ?dg))"
      by (rule key_of_piece_digits) (use d in \<open>auto dest: set_takeWhileD\<close>)
    have "set ?tl \<subseteq> set ds" by (auto dest: set_dropWhileD)
    also have "set ds \<subseteq> set ?rest" using Cons by auto
    also have "set ?rest \<subseteq> set s" by (auto dest: set_dropWhileD)
    finally have "plain ?tl" using "1.prems" plain_subset by blast
    from "1.IH" [OF refl refl Cons this] obtain k where
      k: "natural_sort_key ?tl = Inr k" "typed True k" by blast
    then have "natural_sort_key s = Inr (KStr (lower ?pre) # KInt (decimal_value ?dg) # k)"
      using rs pre dg by (simp add: natural_sort_key_def)
    with k(2) show ?thesis by simp
  qed
qed

lemma key_lt_typed:
  "typed b k1 \<Longrightarrow> typed b k2 \<Longrightarrow> \<exists>r. key_lt k1 k2 = Inr r"
proof (induction k1 k2 arbitrary: b rule: key_lt.induct)
  case (4 x xs y ys)
  then show ?case by (cases b; cases x; cases y) auto
qed auto

lemma str_lt_irrefl: "\<not> str_lt a a"
  by (induction a) simp_all

lemma str_lt_trans: "str_lt a b \<Longrightarrow> str_lt b c \<Longrightarrow> str_lt a c"
proof (induction a b arbitrary: c rule: str_lt.induct)
  case (4 x xs y ys)
  then show ?case by (cases c) (auto split: if_splits)
next
  case (2 y ys)
  then show ?case by (cases c) simp_all
qed simp_all

lemma str_lt_total: "\<not> str_lt a b \<Longrightarrow> \<not> str_lt b a \<Longrightarrow> a = b"
  by (induction a b rule: str_lt.induct) (auto split: if_splits)

lemma str_lt_asym: "str_lt a b \<Longrightarrow> \<not> str_lt b a"
  using str_lt_trans str_lt_irrefl by blast

lemma key_lt_irrefl: "key_lt k k = Inr False"
  by (induction k) simp_all

lemma elem_lt_asym: "elem_lt x y = Inr True \<Longrightarrow> elem_lt y x \<noteq> Inr True"
  by (cases x; cases y) (auto dest: str_lt_asym)

lemma elem_lt_trans:
  "elem_lt x y = Inr True \<Longrightarrow> elem_lt y z = Inr True \<Longrightarrow> elem_lt x z = Inr True"
  by (cases x; cases y; cases z) (auto dest: str_lt_trans)

lemma key_lt_trans:
  "key_lt x y = Inr True \<Longrightarrow> key_lt y z = Inr True \<Longrightarrow> key_lt x z = Inr True"
proof (induction x y arbitrary: z rule: key_lt.induct)
  case (4 x xs y ys)
  then show ?case
    by (cases z) (auto split: if_splits dest: elem_lt_asym elem_lt_trans)
next
  case (2 y ys)
  then show ?case by (cases z) simp_all
qed simp_all

lemma elem_lt_total:
  "typed b (x # xs) \<Longrightarrow> typed b (y # ys) \<Longrightarrow> elem_lt x y = Inr False \<Longrightarrow>
     elem_lt y x = Inr False \<Longrightarrow> x = y"
  by (cases b; cases x; cases y) (auto dest: str_lt_total)

lemma typed_tl: "typed b (x # xs) \<Longrightarrow> typed (\<not> b) xs"
  by (cases b; cases x) auto

lemma key_lt_total:
  "typed b x \<Longrightarrow> typed b y \<Longrightarrow> key_lt x y = Inr False \<Longrightarrow> key_lt y x = Inr False \<Longrightarrow> x = y"
proof (induction x y arbitrary: b rule: key_lt.induct)
  case (4 x xs y ys)
  show ?case
  proof (cases "x = y")
    case True
    with 4 typed_tl show ?thesis by auto
  next
    case False
    with 4 elem_lt_total [of b x xs y ys] show ?thesis by auto
  qed
qed simp_all

lemma typed_positions:
  "typed b k \<Longrightarrow> i < length k \<Longrightarrow>
     (if even i = b then \<exists>t. k ! i = KStr t else \<exists>n. k ! i = KInt n)"
proof (induction b k arbitrary: i rule: typed.induct)
  case (2 t ks)
  then show ?case by (cases i) auto
next
  case (3 n ks)
  then show ?case by (cases i) auto
qed simp_all

lemma natural_lt_plain:
  assumes "plain a" and "plain b"
  shows "\<exists>r. natural_lt a b = Inr r"
proof -
  from natural_sort_key_plain [OF assms(1)] obtain ka where
    ka: "natural_sort_key a = Inr ka" "typed True ka" by blast
  from natural_sort_key_plain [OF assms(2)] obtain kb where
    kb: "natural_sort_key b = Inr kb" "typed True kb" by blast
  from key_lt_typed [OF ka(2) kb(2)] ka(1) kb(1) show ?thesis
    by (simp add: natural_lt_def)
qed

lemma natural_lt_strict_weak_order:
  assumes "plain a" and "plain b" and "plain c"
  shows "natural_lt a a = Inr False"
    and "natural_lt a b = Inr True \<Longrightarrow> natural_lt b c = Inr True \<Longrightarrow> natural_lt a c = Inr True"
    and "natural_lt a b = Inr False \<Longrightarrow> natural_lt b a = Inr False \<Longrightarrow>
         natural_lt b c = Inr False \<Longrightarrow> natural_lt c b = Inr False \<Longrightarrow>
         natural_lt a c = Inr False \<and> natural_lt c a = Inr False"
proof -
  from natural_sort_key_plain [OF assms(1)] obtain ka where
    ka: "natural_sort_key a = Inr ka" "typed True ka" by blast
  from natural_sort_key_plain [OF assms(2)] obtain kb where
    kb: "natural_sort_key b = Inr kb" "typed True kb" by blast
  from natural_sort_key_plain [OF assms(3)] obtain kc where
    kc: "natural_sort_key c = Inr kc" "typed True kc" by blast
  show "natural_lt a a = Inr False"
    using ka(1) by (simp add: natural_lt_def key_lt_irrefl)
  show "natural_lt a c = Inr True"
    if "natural_lt a b = Inr True" and "natural_lt b c = Inr True"
    using that ka(1) kb(1) kc(1) key_lt_trans [of ka kb kc] by (simp add: natural_lt_def)
  show "natural_lt a c = Inr False \<and> natural_lt c a = Inr False"
    if "natural_lt a b = Inr False" and "natural_lt b a = Inr False"
      and "natural_lt b c = Inr False" and "natural_lt c b = Inr False"
  proof -
    have "ka = kb"
      using that(1,2) ka kb key_lt_total [of True ka kb] by (simp add: natural_lt_def)
    moreover have "kb = kc"
      using that(3,4) kb kc key_lt_total [of True kb kc] by (simp add: natural_lt_def)
    ultimately show ?thesis using ka(1) kc(1) by (simp add: natural_lt_def key_lt_irrefl)
  qed
qed

lemma re_split_unfold:
  "re_split s =
     (case dropWhile (\<lambda>c. \<not> isdecimal c) s of
        [] \<Rightarrow> [takeWhile (\<lambda>c. \<not> isdecimal c) s]
      | d # ds \<Rightarrow> takeWhile (\<lambda>c. \<not> isdecimal c) s # (d # takeWhile isdecimal ds)
                   # re_split (dropWhile isdecimal ds))"
  by (subst re_split.simps) (simp only: Let_def)

lemma concat_re_split: "concat (re_split s) = s"
proof (induction s rule: re_split.induct)
  case (1 s)
  let ?pre = "takeWhile (\<lambda>c. \<not> isdecimal c) s"
  let ?rest = "dropWhile (\<lambda>c. \<not> isdecimal c) s"
  have s: "s = ?pre @ ?rest" by simp
  show ?case
  proof (cases ?rest)
    case Nil
    have "re_split s = [?pre]" using re_split_unfold [of s] by (simp only: Nil list.case)
    then have "concat (re_split s) = ?pre" by simp
    also have "\<dots> = ?pre @ ?rest" by (simp only: Nil append_Nil2)
    finally show ?thesis by simp
  next
    case (Cons d ds)
    have rs: "re_split s = ?pre # (d # takeWhile isdecimal ds) # re_split (dropWhile isdecimal ds)"
      using re_split_unfold [of s] by (simp only: Cons list.case)
    have "concat (re_split (dropWhile isdecimal ds)) = dropWhile isdecimal ds"
      using "1.IH" [OF refl refl Cons] .
    then have "concat (re_split s) = ?pre @ d # (takeWhile isdecimal ds @ dropWhile isdecimal ds)"
      unfolding rs by simp
    also have "\<dots> = ?pre @ ?rest" by (simp only: Cons takeWhile_dropWhile_id)
    finally show ?thesis by simp
  qed
qed

lemma runs_ok_re_split: "runs_ok True (re_split s)"
proof (induction s rule: re_split.induct)
  case (1 s)
  let ?pre = "takeWhile (\<lambda>c. \<not> isdecimal c) s"
  let ?rest = "dropWhile (\<lambda>c. \<not> isdecimal c) s"
  have pre: "\<forall>c \<in> set ?pre. \<not> isdecimal c" by (auto dest: set_takeWhileD)
  show ?case
  proof (cases ?rest)
    case Nil
    have "re_split s = [?pre]" using re_split_unfold [of s] by (simp only: Nil list.case)
    with pre show ?thesis by simp
  next
    case (Cons d ds)
    have rs: "re_split s = ?pre # (d # takeWhile isdecimal ds) # re_split (dropWhile isdecimal ds)"
      using re_split_unfold [of s] by (simp only: Cons list.case)
    have d: "isdecimal d" using hd_dropWhile [of "\<lambda>c. \<not> isdecimal c" s] Cons by simp
    have dg: "\<forall>c \<in> set (d # takeWhile isdecimal ds). isdecimal c"
      using d by (auto dest: set_takeWhileD)
    from "1.IH" [OF refl refl Cons] pre dg show ?thesis unfolding rs by simp
  qed
qed

lemma sequence_key_of_runs:
  "runs_ok b ts \<Longrightarrow> \<forall>t \<in> set ts. plain t \<Longrightarrow>
     sequence (map key_of_piece ts) = Inr (key_of_runs b ts)"
proof (induction b ts rule: runs_ok.induct)
  case (2 t ts)
  then show ?case by (simp add: key_of_piece_text)
next
  case (3 t ts)
  then show ?case by (simp add: key_of_piece_digits)
qed simp

lemma natural_sort_key_plain_eq:
  assumes "plain s"
  shows "natural_sort_key s = Inr (key_of_runs True (re_split s))"
proof -
  have "\<forall>t \<in> set (re_split s). plain t"
  proof
    fix t assume "t \<in> set (re_split s)"
    then have "set t \<subseteq> set (concat (re_split s))" by auto
    then have "set t \<subseteq> set s" by (simp only: concat_re_split)
    with assms show "plain t" by (rule plain_subset)
  qed
  with runs_ok_re_split show ?thesis
    unfolding natural_sort_key_def by (rule sequence_key_of_runs)
qed

subsection \<open>Natural Order Comparator: names with a superscript digit\<close>

text \<open>
  \<open>str.isdigit\<close> is true of the superscript digits U+00B2, U+00B3 and U+00B9, which
  \<open>\d\<close> does not match and \<open>int\<close> does not read. A run of them between two runs of
  decimal digits, or before the first, is a piece of the split on its own, and the key
  function raises \<open>ValueError\<close> on it.
\<close>

text \<open>
  C3, at the name \<open>2\<close>, U+00B2, \<open>3.mp4\<close>: sorting it with \<open>clip2.mp4\<close> raises,
  where the claim has the comparator put it first (its first run is the empty text).
\<close>

theorem sort_natural_superscript:
  "sort_natural [''clip2.mp4'', ''2'' @ [CHR 0xB2] @ ''3.mp4''] = Inl ValueError
   \<and> re_split (''2'' @ [CHR 0xB2] @ ''3.mp4'') = [[], ''2'', [CHR 0xB2], ''3'', ''.mp'', ''4'', []]
   \<and> sort_natural [''clip2.mp4'', ''clip10.mp4'', ''clip1.mp4'']
       = Inr [''clip1.mp4'', ''clip2.mp4'', ''clip10.mp4'']"
  by code_simp

text \<open>
  C4, at the name U+00B2, \<open>1.mp4\<close>: its key does not exist, so its comparison with any
  name is an exception.
\<close>

theorem natural_sort_key_superscript:
  "natural_sort_key superscript_name = Inl ValueError
   \<and> re_split superscript_name = [[CHR 0xB2], ''1'', ''.mp'', ''4'', []]
   \<and> isdigit [CHR 0xB2]
   \<and> py_int [CHR 0xB2] = Inl ValueError
   \<and> natural_lt superscript_name ''a.mp4'' = Inl ValueError"
  by code_simp

text \<open>
  C8, in a directory whose only entry is the regular file U+00B2, \<open>1.mp4\<close>: one
  qualifying video remains after classification, and the run ends in \<open>ValueError\<close> at
  the sort, before the test for fewer than two inputs: nothing is printed and no exit
  code 0 is returned.
\<close>

theorem main_superscript:
  "which_ffmpeg env_superscript \<noteq> None
   \<and> listdir env_superscript = Inr [superscript_name]
   \<and> is_video_file (files world_superscript) (join (getcwd env_superscript) superscript_name)
   \<and> main env_superscript args_demo world_superscript = (Inl ValueError, world_superscript)"
proof -
  have a: "which_ffmpeg env_superscript \<noteq> None"
    by (simp add: env_superscript_def env_demo_def)
  have b: "listdir env_superscript = Inr [superscript_name]"
    by (simp add: env_superscript_def)
  have c: "is_video_file (files world_superscript)
             (join (getcwd env_superscript) superscript_name)"
    by code_simp
  have d: "discovered env_superscript args_demo world_superscript = Inl ValueError"
    by code_simp
  have e: "main env_superscript args_demo world_superscript = (Inl ValueError, world_superscript)"
    using a d by (auto simp: main_def)
  from a b c e show ?thesis by (intro conjI)
qed

text \<open>
  Where the directory was listed and sorted, the test does what C8 says: with fewer
  than two inputs, before or after the output path is taken out, the run prints one of
  the two messages, returns 0 and leaves the file system and both logs as they were.
\<close>

lemma main_few_inputs:
  assumes "which_ffmpeg E \<noteq> None" and "discovered E a w = Inr vs"
    and "length vs < 2
         \<or> length (filter (\<lambda>f. abspath (getcwd E) (join (getcwd E) f) \<noteq> output_path_of E a) vs) < 2"
  shows "\<exists>msg \<in> {''Found fewer than 2 video files to merge. Nothing to do.'',
                   ''After filtering, fewer than 2 inputs remain. Nothing to do.''}.
           main E a w = (Inr 0, w\<lparr>out := out w @ [msg]\<rparr>)"
  using assms by (cases rule: main_cases [of E a w]) (auto simp: print_out_def)

end
